theory Spec2Isabelle
  imports Complex_Main
begin

section \<open>Double-precision numbers\<close>

text \<open>
  A JavaScript Number is a double. \<open>binary64 q\<close> is the double nearest to the rational
  \<open>q\<close>, ties to the even mantissa, as a rational and with no bound on the exponent: a
  double has a 53-bit mantissa, so the spacing of doubles around \<open>q\<close> is
  \<open>2 ^ (\<lfloor>log\<^sub>2 \<bar>q\<bar>\<rfloor> - 52)\<close>. Every quotient of a millisecond count by 1000 is in the
  normal range of the format, where this is the result of the division.
\<close>

fun bitlen :: "nat \<Rightarrow> nat" where
  "bitlen n = (if n = 0 then 0 else Suc (bitlen (n div 2)))"

declare bitlen.simps [simp del]

definition binade :: "rat \<Rightarrow> int" where
  "binade q =
     (if 1 \<le> q then int (bitlen (nat \<lfloor>q\<rfloor>)) - 1
      else - int (bitlen (nat (\<lceil>1 / q\<rceil> - 1))))"

definition roundTiesToEven :: "rat \<Rightarrow> int" where
  "roundTiesToEven y =
     (let f = \<lfloor>y\<rfloor>; r = y - of_int f
      in if r < 1 / 2 then f else if 1 / 2 < r then f + 1
         else if even f then f else f + 1)"

definition binary64 :: "rat \<Rightarrow> rat" where
  "binary64 q =
     (if q = 0 then 0
      else let a = \<bar>q\<bar>; ulp = 2 powi (binade a - 52)
           in sgn q * of_int (roundTiesToEven (a / ulp)) * ulp)"

section \<open>JavaScript values used by the handlers\<close>

text \<open>
  The Numbers that reach the handlers are NaN, the infinities, or doubles whose value is
  an integer: \<open>parseInt\<close> returns NaN, an infinity or the double nearest to an integer
  (itself an integer), and \<open>Date.now()\<close> returns an integer count of milliseconds.
  \<open>Num n\<close> is the double with the value \<open>n\<close>. \<open>+0\<close> and \<open>-0\<close> are both \<open>Num 0\<close> (both are
  falsy, and both serialise as \<open>0\<close>).
\<close>

datatype number = NaN | Num int | PosInf | NegInf

text \<open>
  The Number for a mathematical integer: the nearest double, and an infinity when that
  rounding reaches \<open>2 ^ 1024\<close>.
\<close>

definition Number_of_int :: "int \<Rightarrow> number" where
  "Number_of_int n =
     (let r = binary64 (of_int n)
      in if 2 ^ 1024 \<le> \<bar>r\<bar> then (if 0 < n then PosInf else NegInf)
         else Num \<lfloor>r\<rfloor>)"

text \<open>\<open>a || b\<close> on Numbers: NaN and zero are falsy.\<close>

fun truthy :: "number \<Rightarrow> bool" where
  "truthy NaN = False"
| "truthy (Num n) = (n \<noteq> 0)"
| "truthy PosInf = True"
| "truthy NegInf = True"

definition js_or :: "number \<Rightarrow> number \<Rightarrow> number" where
  "js_or a b = (if truthy a then a else b)"

fun Math_min :: "number \<Rightarrow> number \<Rightarrow> number" where
  "Math_min NaN b = NaN"
| "Math_min a NaN = NaN"
| "Math_min NegInf b = NegInf"
| "Math_min a NegInf = NegInf"
| "Math_min PosInf b = b"
| "Math_min a PosInf = a"
| "Math_min (Num a) (Num b) = Num (min a b)"

text \<open>
  Sums and products. The handlers form them from a time value (at most \<open>8.64 * 10^15\<close>
  in magnitude, below \<open>2^53\<close>) and a duration of at most 30 seconds. Between finite values
  they are kept exact here: up to \<open>2^53\<close> in magnitude the double is the exact value, and
  beyond it the exact and the rounded value are both below \<open>- 2^53\<close>, hence below every
  time value, so that no comparison with a clock reading depends on the rounding.
\<close>

fun num_add :: "number \<Rightarrow> number \<Rightarrow> number" where
  "num_add NaN b = NaN"
| "num_add a NaN = NaN"
| "num_add PosInf NegInf = NaN"
| "num_add NegInf PosInf = NaN"
| "num_add PosInf b = PosInf"
| "num_add a PosInf = PosInf"
| "num_add NegInf b = NegInf"
| "num_add a NegInf = NegInf"
| "num_add (Num a) (Num b) = Num (a + b)"

fun num_sgn :: "number \<Rightarrow> int" where
  "num_sgn NaN = 0"
| "num_sgn (Num a) = sgn a"
| "num_sgn PosInf = 1"
| "num_sgn NegInf = - 1"

fun num_mul :: "number \<Rightarrow> number \<Rightarrow> number" where
  "num_mul NaN b = NaN"
| "num_mul a NaN = NaN"
| "num_mul (Num a) (Num b) = Num (a * b)"
| "num_mul a b =
     (if num_sgn a * num_sgn b = 0 then NaN
      else if 0 < num_sgn a * num_sgn b then PosInf else NegInf)"

text \<open>\<open>a < b\<close> on Numbers: every comparison with NaN is false.\<close>

fun num_lt :: "number \<Rightarrow> number \<Rightarrow> bool" where
  "num_lt NaN b = False"
| "num_lt a NaN = False"
| "num_lt (Num a) (Num b) = (a < b)"
| "num_lt a NegInf = False"
| "num_lt PosInf b = False"
| "num_lt NegInf b = True"
| "num_lt a PosInf = True"

subsection \<open>parseInt\<close>

text \<open>
  A JavaScript string is modelled as a \<open>string\<close> whose characters are the code units
  \<open>0x00..0xFF\<close>. The white space that \<open>parseInt\<close> strips is TAB, LF, VT, FF, CR, SP and
  NBSP in this range.
\<close>

definition StrWhiteSpaceChar :: "char \<Rightarrow> bool" where
  "StrWhiteSpaceChar c \<longleftrightarrow> (of_char c :: nat) \<in> {9, 10, 11, 12, 13, 32, 160}"

definition digitValue :: "char \<Rightarrow> nat option" where
  "digitValue c =
     (let u = (of_char c :: nat) in
      if 48 \<le> u \<and> u \<le> 57 then Some (u - 48)
      else if 97 \<le> u \<and> u \<le> 122 then Some (u - 87)
      else if 65 \<le> u \<and> u \<le> 90 then Some (u - 55)
      else None)"

definition isRadixDigit :: "nat \<Rightarrow> char \<Rightarrow> bool" where
  "isRadixDigit R c = (case digitValue c of None \<Rightarrow> False | Some v \<Rightarrow> v < R)"

definition mathInt :: "nat \<Rightarrow> string \<Rightarrow> nat" where
  "mathInt R Z =
     foldl (\<lambda>acc c. case digitValue c of None \<Rightarrow> acc | Some v \<Rightarrow> acc * R + v) 0 Z"

text \<open>
  \<open>parseInt(string)\<close> with no radix argument, step by step as ECMAScript defines it:
  strip leading white space, read a sign, switch to radix 16 after \<open>0x\<close> or \<open>0X\<close>, take
  the longest prefix of digits, return NaN when that prefix is empty, and otherwise the
  Number for the signed integer that the digits write: the nearest double (V8 rounds the
  exact value of all the digits), or an infinity from about 309 decimal digits on.
\<close>

definition parseInt :: "string \<Rightarrow> number" where
  "parseInt inputString =
     (let S = dropWhile StrWhiteSpaceChar inputString;
          sign = (if S \<noteq> [] \<and> hd S = CHR ''-'' then - 1 else 1 :: int);
          S = (if S \<noteq> [] \<and> (hd S = CHR ''+'' \<or> hd S = CHR ''-'') then tl S else S);
          stripPrefix = (2 \<le> length S \<and> (take 2 S = ''0x'' \<or> take 2 S = ''0X''));
          R = (if stripPrefix then 16 else 10 :: nat);
          S = (if stripPrefix then drop 2 S else S);
          Z = takeWhile (isRadixDigit R) S
      in if Z = [] then NaN else Number_of_int (sign * int (mathInt R Z)))"

text \<open>
  \<open>req.query.duration\<close> is \<open>undefined\<close> when the parameter is absent and a string when
  it is present; \<open>parseInt\<close> first applies \<open>ToString\<close> to its argument.
\<close>

fun ToString :: "string option \<Rightarrow> string" where
  "ToString None = ''undefined''"
| "ToString (Some s) = s"

section \<open>The duration of a load test\<close>

text \<open>
  \<^verbatim>\<open>const duration = Math.min(parseInt(req.query.duration) || 5, 30);\<close>
  (the same line in the router and in the single-file server).
\<close>

definition load_duration :: "string option \<Rightarrow> number" where
  "load_duration query_duration =
     Math_min (js_or (parseInt (ToString query_duration)) (Num 5)) (Num 30)"

section \<open>Printing and reading numbers\<close>

text \<open>
  \<open>x.toFixed(2)\<close> writes the integer \<open>n\<close> for which \<open>n / 100\<close> is nearest to \<open>\<bar>x\<bar>\<close>
  (the larger \<open>n\<close> on a tie) with two decimals and the sign of \<open>x\<close>; from \<open>10^21\<close> on it
  writes \<open>x\<close> itself. \<open>toFixed2 x\<close> is the value of the decimal string, and \<open>parseFloat\<close>
  of that string is the double nearest to it.
\<close>

definition toFixed2 :: "rat \<Rightarrow> rat" where
  "toFixed2 x =
     (if 10 ^ 21 \<le> \<bar>x\<bar> then x
      else sgn x * of_int \<lfloor>\<bar>x\<bar> * 100 + 1 / 2\<rfloor> / 100)"

definition parseFloat :: "rat \<Rightarrow> rat" where
  "parseFloat decimal = binary64 decimal"

text \<open>\<open>Math.round(bytes / 1024 / 1024)\<close>: both divisions are exact, a tie rounds up.\<close>

definition Math_round_MB :: "nat \<Rightarrow> int" where
  "Math_round_MB bytes = \<lfloor>(of_nat bytes / 1024 / 1024 :: rat) + 1 / 2\<rfloor>"

text \<open>\<open>n + ' MB'\<close> converts the integer \<open>n\<close> to its decimal digits (below \<open>10^21\<close>).\<close>

definition digit_char :: "nat \<Rightarrow> char" where
  "digit_char d = ''0123456789'' ! d"

fun digits10 :: "nat \<Rightarrow> string" where
  "digits10 n = (if n < 10 then [digit_char n] else digits10 (n div 10) @ [digit_char (n mod 10)])"

declare digits10.simps [simp del]

definition Number_toString :: "int \<Rightarrow> string" where
  "Number_toString n = (if n < 0 then CHR ''-'' # digits10 (nat (- n)) else digits10 (nat n))"

section \<open>Responses and the metrics registry\<close>

datatype json = JNull | JBool bool | JNum rat | JStr string | JObj "(string \<times> json) list"

text \<open>\<open>JSON.stringify\<close> writes NaN and the infinities as \<open>null\<close>.\<close>

fun json_of_number :: "number \<Rightarrow> json" where
  "json_of_number (Num n) = JNum (of_int n)"
| "json_of_number _ = JNull"

fun field :: "string \<Rightarrow> json \<Rightarrow> json option" where
  "field k (JObj kvs) = map_of kvs k"
| "field k _ = None"

datatype payload = Json json | Text string

record response =
  statusCode :: nat
  payload :: payload

text \<open>
  The registry of the four custom metrics: a counter per label triple, the observations
  of the histogram per label pair, a counter and a gauge.
\<close>

record registry =
  httpRequestsTotal :: "string \<times> string \<times> nat \<Rightarrow> nat"
  httpRequestDuration :: "string \<times> string \<Rightarrow> rat list"
  loadTestsTotal :: nat
  activeConnections :: int

definition new_registry :: registry where
  "new_registry =
     \<lparr>httpRequestsTotal = (\<lambda>labels. 0), httpRequestDuration = (\<lambda>labels. []),
      loadTestsTotal = 0, activeConnections = 0\<rparr>"

section \<open>GET /load\<close>

text \<open>
  \<open>hostname\<close> is the constant \<open>HOSTNAME\<close> of the module, read from the environment.
  The clock is the list of the values that the successive calls of \<open>Date.now()\<close> return:
  time values in milliseconds, whose differences a double holds exactly.
  The loop reads the clock before each batch and leaves at the first reading that is not
  below \<open>endTime\<close>; it returns the number of batches and the readings still to come.
  \<open>None\<close>: the readings ran out while the loop was still running.
\<close>

fun busy_loop :: "number \<Rightarrow> int list \<Rightarrow> nat \<Rightarrow> (nat \<times> int list) option" where
  "busy_loop endTime [] iterations = None"
| "busy_loop endTime (now # clock) iterations =
     (if num_lt (Num now) endTime then busy_loop endTime clock (Suc iterations)
      else Some (iterations, clock))"

definition load_message :: string where
  "load_message = ''CPU stress test completed. This simulates the \"gravity\" that pulls down your system. The HPA (Anti-Gravity) will scale up pods to resist this load.''"

definition load :: "string \<Rightarrow> string option \<Rightarrow> int list \<Rightarrow> registry \<Rightarrow> (response \<times> registry) option" where
  "load hostname query_duration clock register =
     (case clock of
        [] \<Rightarrow> None
      | startTime # clock1 \<Rightarrow>
          let duration = load_duration query_duration;
              endTime = num_add (Num startTime) (num_mul duration (Num 1000));
              register1 = register\<lparr>loadTestsTotal := loadTestsTotal register + 1\<rparr>
          in case busy_loop endTime clock1 0 of
               None \<Rightarrow> None
             | Some (iterations, clock2) \<Rightarrow>
                 (case clock2 of
                    [] \<Rightarrow> None
                  | now # clock3 \<Rightarrow>
                      let actualDuration = toFixed2 (binary64 (of_int (now - startTime) / 1000))
                      in Some (\<lparr>statusCode = 200,
                                payload = Json (JObj
                                  [(''status'', JStr ''completed''),
                                   (''hostname'', JStr hostname),
                                   (''requestedDuration'', json_of_number duration),
                                   (''actualDuration'', JNum (parseFloat actualDuration)),
                                   (''iterations'', JNum (of_nat iterations)),
                                   (''message'', JStr load_message)])\<rparr>,
                               register1)))"

text \<open>A field of the object that a response carries as JSON.\<close>

fun payload_field :: "string \<Rightarrow> response \<Rightarrow> json option" where
  "payload_field k r = (case payload r of Json j \<Rightarrow> field k j | Text t \<Rightarrow> None)"

section \<open>GET /health\<close>

record memory_usage =
  heapUsed :: nat
  heapTotal :: nat

text \<open>
  The handler awaits \<open>redis.incr('survivor_count')\<close> inside \<open>try\<close>: the call either
  resolves to the new count (\<open>Inr\<close>) or rejects with an error (\<open>Inl\<close>, its message).
  \<open>process.memoryUsage()\<close> is called three times, for \<open>used\<close>, for \<open>total\<close> and for the
  memory check; \<open>memoryUsage1\<close>, \<open>memoryUsage2\<close> and \<open>memoryUsage3\<close> are the three results.
  \<open>timestamp\<close> is \<open>new Date().toISOString()\<close>, \<open>uptime\<close> is \<open>process.uptime()\<close>.
\<close>

definition health ::
  "string \<Rightarrow> string \<Rightarrow> rat \<Rightarrow> memory_usage \<Rightarrow> memory_usage \<Rightarrow> memory_usage \<Rightarrow> string + int
     \<Rightarrow> response" where
  "health hostname timestamp uptime memoryUsage1 memoryUsage2 memoryUsage3 redis_incr =
     (let survivorCount = (case redis_incr of Inl e \<Rightarrow> 0 | Inr v \<Rightarrow> v);
          healthStatus = JObj
            [(''status'', JStr ''healthy''),
             (''hostname'', JStr hostname),
             (''timestamp'', JStr timestamp),
             (''uptime'', JNum uptime),
             (''survivorCount'', JNum (of_int survivorCount)),
             (''memory'', JObj
               [(''used'', JStr (Number_toString (Math_round_MB (heapUsed memoryUsage1)) @ '' MB'')),
                (''total'', JStr (Number_toString (Math_round_MB (heapTotal memoryUsage2)) @ '' MB''))]),
             (''checks'', JObj
               [(''server'', JStr ''running''),
                (''memory'', JStr (if heapUsed memoryUsage3 < 500 * 1024 * 1024
                                   then ''ok'' else ''warning''))])]
      in \<lparr>statusCode = 200, payload = Json healthStatus\<rparr>)"

section \<open>GET /metrics\<close>

text \<open>
  \<open>register.metrics()\<close> is awaited once inside \<open>try\<close>: it resolves to the exposition
  text (\<open>Inr\<close>) or throws an error (\<open>Inl\<close>, its message). The response has status 200
  unless the \<open>catch\<close> branch sets 500.
\<close>

definition metrics :: "string + string \<Rightarrow> response" where
  "metrics register_metrics =
     (case register_metrics of
        Inr text \<Rightarrow> \<lparr>statusCode = 200, payload = Text text\<rparr>
      | Inl message \<Rightarrow> \<lparr>statusCode = 500, payload = Text message\<rparr>)"

section \<open>The tracking middleware of the router\<close>

text \<open>The fields \<open>method\<close>, \<open>path\<close> and \<open>ip\<close> of the request.\<close>

record request =
  http_method :: string
  path :: string
  ip :: string

text \<open>Request start: \<open>activeConnections.inc()\<close>.\<close>

definition track_start :: "registry \<Rightarrow> registry" where
  "track_start register = register\<lparr>activeConnections := activeConnections register + 1\<rparr>"

text \<open>
  The listener of the response's \<open>finish\<close> event, in the order of its statements:
  the counter, the histogram, the gauge.
\<close>

definition track_finish :: "request \<Rightarrow> int \<Rightarrow> nat \<Rightarrow> int \<Rightarrow> registry \<Rightarrow> registry" where
  "track_finish req start status now register =
     (let duration = binary64 (of_int (now - start) / 1000);
          r1 = register\<lparr>httpRequestsTotal :=
                 (httpRequestsTotal register)
                   ((http_method req, path req, status) :=
                      httpRequestsTotal register (http_method req, path req, status) + 1)\<rparr>;
          r2 = r1\<lparr>httpRequestDuration :=
                 (httpRequestDuration r1)
                   ((http_method req, path req) :=
                      httpRequestDuration r1 (http_method req, path req) @ [duration])\<rparr>
      in r2\<lparr>activeConnections := activeConnections r2 - 1\<rparr>)"

text \<open>
  The routes of the router, and \<open>NoRoute\<close> for a request that leaves the router unmatched
  (the 404 handler of the application answers it). The only handler that touches the
  registry is the one of \<open>/load\<close>.
\<close>

datatype route = Api | ApiLogs | Health | Load | Metrics | Ready | ChaosKill | NoRoute

fun route_handler :: "route \<Rightarrow> registry \<Rightarrow> registry" where
  "route_handler Load register = register\<lparr>loadTestsTotal := loadTestsTotal register + 1\<rparr>"
| "route_handler _ register = register"

text \<open>
  A handler either sends its response with some status, or throws; the global error
  handler of the application then answers with status 500.
\<close>

datatype completion = Sent nat | Thrown string

fun final_status :: "completion \<Rightarrow> nat" where
  "final_status (Sent status) = status"
| "final_status (Thrown message) = 500"

text \<open>
  The middleware registers its listener on the \<open>finish\<close> event of the response only.
  Node emits \<open>finish\<close> once, when the response has been handed to the network
  (\<open>finished\<close>), and does not emit it when the client has gone before the response is
  written: the listener then never runs.
\<close>

definition router_request ::
  "registry \<Rightarrow> request \<Rightarrow> int \<Rightarrow> route \<Rightarrow> completion \<Rightarrow> bool \<Rightarrow> int \<Rightarrow> registry" where
  "router_request register req start matched completion finished now =
     (let register1 = route_handler matched (track_start register)
      in if finished then track_finish req start (final_status completion) now register1
         else register1)"

section \<open>The application: rate limiter, then the router\<close>

text \<open>
  The options given to \<open>rateLimit\<close>. The package counts the requests of each key (the
  client's IP address) in a window of \<open>windowMs\<close> milliseconds and answers a request
  whose count exceeds \<open>max\<close> with status 429 instead of passing it on; a request for
  which \<open>skip\<close> holds is passed on uncounted.
\<close>

definition windowMs :: int where
  "windowMs = 15 * 60 * 1000"

definition max_requests :: nat where
  "max_requests = 1000"

definition skip :: "request \<Rightarrow> bool" where
  "skip req \<longleftrightarrow> path req \<in> set [''/health'', ''/ready'', ''/metrics'']"

text \<open>The store of the limiter: per key, the hits of the current window and its end.\<close>

type_synonym hits_store = "string \<Rightarrow> (nat \<times> int) option"

definition store_increment :: "hits_store \<Rightarrow> string \<Rightarrow> int \<Rightarrow> (nat \<times> int) \<times> hits_store" where
  "store_increment store key now =
     (let client = (case store key of
                      None \<Rightarrow> (1, now + windowMs)
                    | Some (totalHits, resetTime) \<Rightarrow>
                        if now < resetTime then (totalHits + 1, resetTime)
                        else (1, now + windowMs))
      in (client, store(key \<mapsto> client)))"

datatype verdict = Next | TooManyRequests

definition limiter :: "hits_store \<Rightarrow> request \<Rightarrow> int \<Rightarrow> verdict \<times> hits_store" where
  "limiter store req now =
     (if skip req then (Next, store)
      else let (client, store1) = store_increment store (ip req) now
           in (if max_requests < fst client then TooManyRequests else Next, store1))"

definition new_store :: hits_store where
  "new_store = (\<lambda>key. None)"

text \<open>The limiter on a sequence of requests, each with its arrival time.\<close>

fun limiter_run :: "hits_store \<Rightarrow> (request \<times> int) list \<Rightarrow> verdict list" where
  "limiter_run store [] = []"
| "limiter_run store ((req, now) # rest) =
     (case limiter store req now of (verdict, store1) \<Rightarrow> verdict # limiter_run store1 rest)"

text \<open>The store after the limiter has seen a sequence of requests.\<close>

fun limiter_after :: "hits_store \<Rightarrow> (request \<times> int) list \<Rightarrow> hits_store" where
  "limiter_after store [] = store"
| "limiter_after store ((req, now) # rest) = limiter_after (snd (limiter store req now)) rest"

text \<open>
  The application mounts the limiter before the router; \<open>app_request\<close> follows a
  request from the limiter on, \<open>start\<close> being its time of arrival. Between the limiter
  and the router, the JSON parser, the documentation pages and the static files end some
  requests themselves (\<open>upstream = Some status\<close>); the others reach the router. The
  result is the status of the response, the registry and the store after the request.
\<close>

definition app_request ::
  "hits_store \<Rightarrow> registry \<Rightarrow> request \<Rightarrow> int \<Rightarrow> nat option \<Rightarrow> route \<Rightarrow> completion \<Rightarrow> bool
     \<Rightarrow> int \<Rightarrow> nat \<times> registry \<times> hits_store" where
  "app_request store register req start upstream matched completion finished now =
     (case limiter store req start of
        (TooManyRequests, store1) \<Rightarrow> (429, register, store1)
      | (Next, store1) \<Rightarrow>
          (case upstream of
             Some status \<Rightarrow> (status, register, store1)
           | None \<Rightarrow>
               (final_status completion,
                router_request register req start matched completion finished now,
                store1)))"

section \<open>Facts about the arithmetic\<close>

text \<open>
  The bit length of a positive number bounds it from below, and rounding to the nearest
  integer never goes below an integer that the argument has reached. Hence a double
  quotient, and a value printed with two decimals, is never below an integer that the
  exact value has reached.
\<close>

lemma bitlen_lower: "0 < n \<Longrightarrow> 2 ^ (bitlen n - 1) \<le> n"
proof (induction n rule: bitlen.induct)
  case (1 n)
  show ?case
  proof (cases "n div 2 = 0")
    case True
    with "1.prems" have "n = 1" by presburger
    then show ?thesis by (simp add: bitlen.simps)
  next
    case False
    then have pos: "0 < n div 2" by simp
    from "1.IH" "1.prems" pos have ih: "2 ^ (bitlen (n div 2) - 1) \<le> n div 2" by simp
    have bl: "bitlen n = Suc (bitlen (n div 2))" using "1.prems" by (subst bitlen.simps) simp
    have "0 < bitlen (n div 2)" using pos by (subst bitlen.simps) simp
    then have "2 ^ (bitlen n - 1) = 2 * 2 ^ (bitlen (n div 2) - 1)"
      using bl by (cases "bitlen (n div 2)") simp_all
    also have "\<dots> \<le> 2 * (n div 2)" using ih by simp
    also have "\<dots> \<le> n" by simp
    finally show ?thesis .
  qed
qed

lemma roundTiesToEven_ge: "of_int k \<le> y \<Longrightarrow> k \<le> roundTiesToEven y"
proof -
  assume "of_int k \<le> y"
  then have "k \<le> \<lfloor>y\<rfloor>" by (simp add: le_floor_iff)
  moreover have "\<lfloor>y\<rfloor> \<le> roundTiesToEven y"
    by (simp add: roundTiesToEven_def Let_def)
  ultimately show ?thesis by simp
qed

lemma binary64_ge_int:
  assumes d: "0 < d" "d \<le> 2 ^ 53" and q: "of_int d \<le> q"
  shows "of_int d \<le> binary64 q"
proof -
  have "(1::rat) \<le> of_int d" using d by simp
  then have q1: "1 \<le> q" using q by linarith
  then have qpos: "0 < q" by linarith
  define p where "p = binade q"
  define ulp :: rat where "ulp = 2 powi (p - 52)"
  have ulp_pos: "0 < ulp" by (simp add: ulp_def)
  have b: "binary64 q = of_int (roundTiesToEven (q / ulp)) * ulp"
    using qpos by (simp add: binary64_def Let_def p_def ulp_def)
  show ?thesis
  proof (cases "p \<le> 52")
    case True
    define K :: int where "K = 2 ^ nat (52 - p)"
    have inv: "1 / ulp = of_int K"
      using True by (simp add: ulp_def K_def power_int_def field_simps power_int_minus)
    have "of_int d / ulp = of_int d * (1 / ulp)" by simp
    then have "of_int (d * K) = of_int d / ulp" by (simp only: inv of_int_mult)
    also have "\<dots> \<le> q / ulp" using q ulp_pos by (simp add: divide_right_mono)
    finally have "d * K \<le> roundTiesToEven (q / ulp)" by (rule roundTiesToEven_ge)
    then have "(of_int (d * K) :: rat) \<le> of_int (roundTiesToEven (q / ulp))" by (simp only: of_int_le_iff)
    then have le: "of_int (d * K) * ulp \<le> of_int (roundTiesToEven (q / ulp)) * ulp"
      using ulp_pos by (intro mult_right_mono) simp_all
    have "of_int K * ulp = 1 / ulp * ulp" by (simp only: inv)
    also have "\<dots> = 1" using ulp_pos by simp
    finally have Ku: "of_int K * ulp = (1 :: rat)" .
    have "(of_int d :: rat) = of_int d * (of_int K * ulp)" by (simp only: Ku mult_1_right)
    also have "\<dots> = of_int (d * K) * ulp" by (simp only: of_int_mult mult.assoc)
    also note le
    finally show ?thesis by (simp only: b)
  next
    case False
    then have p53: "53 \<le> p" by simp
    define n where "n = nat \<lfloor>q\<rfloor>"
    have npos: "0 < n" using q1 by (simp add: n_def)
    have pn: "p = int (bitlen n) - 1" using q1 by (simp add: p_def binade_def n_def)
    then have pnat: "nat p = bitlen n - 1" by simp
    have "(2::nat) ^ nat p \<le> n" using bitlen_lower[OF npos] pnat by simp
    then have "(2::rat) ^ nat p \<le> of_nat n" by (metis of_nat_le_iff of_nat_numeral of_nat_power)
    also have "\<dots> \<le> q" using q1 by (simp add: n_def)
    finally have low: "(2::rat) ^ nat p \<le> q" .
    have ulp_eq: "ulp = 2 ^ nat (p - 52)" using p53 by (simp add: ulp_def power_int_def)
    have "nat p = 52 + nat (p - 52)" using p53 by simp
    then have split: "(2::rat) ^ nat p = 2 ^ 52 * 2 ^ nat (p - 52)"
      by (simp only: power_add)
    have "(of_int (2 ^ 52) :: rat) = 2 ^ nat p / ulp" using split ulp_eq by simp
    also have "\<dots> \<le> q / ulp" using low ulp_pos by (simp add: divide_right_mono)
    finally have "2 ^ 52 \<le> roundTiesToEven (q / ulp)" by (rule roundTiesToEven_ge)
    then have "(of_int (2 ^ 52) :: rat) \<le> of_int (roundTiesToEven (q / ulp))" by (simp only: of_int_le_iff)
    then have "of_int (2 ^ 52) * ulp \<le> of_int (roundTiesToEven (q / ulp)) * ulp"
      using ulp_pos by (simp add: mult_right_mono)
    then have "(2::rat) ^ nat p \<le> binary64 q" using b split ulp_eq by simp
    moreover have "(of_int d :: rat) \<le> 2 ^ 53" using d by (metis of_int_le_iff of_int_numeral of_int_power)
    moreover have "(2::rat) ^ 53 \<le> 2 ^ nat p" using p53 by (intro power_increasing) auto
    ultimately show ?thesis by linarith
  qed
qed

lemma toFixed2_ge_int:
  assumes "0 \<le> d" "of_int d \<le> x"
  shows "of_int d \<le> toFixed2 x"
proof (cases "x = 0")
  case True
  then show ?thesis using assms by (simp add: toFixed2_def)
next
  case False
  have "(0::rat) \<le> of_int d" using assms by simp
  then have xpos: "0 < x" using assms False by linarith
  show ?thesis
  proof (cases "10 ^ 21 \<le> \<bar>x\<bar>")
    case True
    then show ?thesis using assms by (simp add: toFixed2_def)
  next
    case False
    have "of_int (d * 100) \<le> x * 100 + 1 / 2" using assms by simp
    then have "d * 100 \<le> \<lfloor>x * 100 + 1 / 2\<rfloor>" by (simp only: le_floor_iff)
    then have "(of_int (d * 100) :: rat) \<le> of_int \<lfloor>x * 100 + 1 / 2\<rfloor>" by (simp only: of_int_le_iff)
    then have "(of_int d :: rat) \<le> of_int \<lfloor>x * 100 + 1 / 2\<rfloor> / 100" by simp
    then show ?thesis using False xpos by (simp add: toFixed2_def)
  qed
qed

text \<open>
  An integer of at most 53 bits is a double: rounding leaves it as it is. Beyond, the
  rounding shows: \<open>2^53 + 1\<close> lies halfway between two doubles and goes to the even one,
  and \<open>2^1024\<close> is out of range.
\<close>

lemma bitlen_upper: "n < 2 ^ bitlen n"
proof (induction n rule: bitlen.induct)
  case (1 n)
  show ?case
  proof (cases "n = 0")
    case True
    then show ?thesis by simp
  next
    case False
    with "1.IH" have ih: "n div 2 < 2 ^ bitlen (n div 2)" by simp
    have bl: "bitlen n = Suc (bitlen (n div 2))" using False by (subst bitlen.simps) simp
    from ih have "n < 2 * 2 ^ bitlen (n div 2)" by linarith
    then show ?thesis by (simp add: bl)
  qed
qed

lemma roundTiesToEven_of_int: "roundTiesToEven (of_int k) = k"
  by (simp add: roundTiesToEven_def)

lemma binary64_scaled:
  assumes "q \<noteq> 0" "\<bar>q\<bar> / 2 powi (binade \<bar>q\<bar> - 52) = of_int K"
  shows "binary64 q = q"
proof -
  define ulp :: rat where "ulp = 2 powi (binade \<bar>q\<bar> - 52)"
  have ulp_pos: "0 < ulp" by (simp add: ulp_def)
  have "of_int K * ulp = \<bar>q\<bar> / ulp * ulp" using assms(2) by (simp only: ulp_def)
  also have "\<dots> = \<bar>q\<bar>" using ulp_pos by simp
  finally have K: "of_int K * ulp = \<bar>q\<bar>" .
  have "binary64 q = sgn q * of_int (roundTiesToEven (\<bar>q\<bar> / ulp)) * ulp"
    using assms(1) by (simp add: binary64_def Let_def ulp_def)
  also have "\<dots> = sgn q * (of_int K * ulp)"
    using assms(2) by (simp only: ulp_def [symmetric] roundTiesToEven_of_int mult.assoc)
  also have "\<dots> = q" by (simp only: K mult_sgn_abs)
  finally show ?thesis .
qed

lemma binary64_of_int:
  assumes "\<bar>n\<bar> \<le> 2 ^ 53"
  shows "binary64 (of_int n) = of_int n"
proof (cases "n = 0")
  case True
  then show ?thesis by (simp add: binary64_def)
next
  case False
  define N where "N = nat \<bar>n\<bar>"
  have Npos: "0 < N" using False by (simp add: N_def)
  have N53: "N \<le> 2 ^ 53" using assms by (simp add: N_def nat_le_iff)
  have a: "\<bar>of_int n :: rat\<bar> = of_nat N" by (simp add: N_def)
  have "(1::rat) \<le> of_nat N" using Npos by simp
  then have p: "binade (of_nat N :: rat) = int (bitlen N) - 1"
    by (simp add: binade_def)
  have low: "2 ^ (bitlen N - 1) \<le> N" using Npos by (rule bitlen_lower)
  have bpos: "0 < bitlen N" using Npos by (subst bitlen.simps) simp
  have "\<exists>K. \<bar>of_int n :: rat\<bar> / 2 powi (binade \<bar>of_int n :: rat\<bar> - 52) = of_int K"
  proof (cases "bitlen N \<le> 53")
    case True
    then have "int (bitlen N) - 1 - 52 = - int (53 - bitlen N)" by simp
    then have "(2::rat) powi (int (bitlen N) - 1 - 52) = 1 / 2 ^ (53 - bitlen N)"
      by (simp only: power_int_minus power_int_of_nat) (simp add: field_simps)
    then have "\<bar>of_int n :: rat\<bar> / 2 powi (binade \<bar>of_int n :: rat\<bar> - 52) =
        of_int (int N * 2 ^ (53 - bitlen N))"
      by (simp add: p a)
    then show ?thesis ..
  next
    case False
    then have "54 \<le> bitlen N" by simp
    then have "(2::nat) ^ 53 \<le> 2 ^ (bitlen N - 1)" by (intro power_increasing) simp_all
    with low N53 have N: "N = 2 ^ 53" by linarith
    have "bitlen N - 1 \<le> 53"
    proof (rule ccontr)
      assume "\<not> bitlen N - 1 \<le> 53"
      then have "54 \<le> bitlen N - 1" by simp
      then have "(2::nat) ^ 54 \<le> 2 ^ (bitlen N - 1)" by (intro power_increasing) simp_all
      with low N show False by simp
    qed
    with False have b: "bitlen N = 54" by simp
    have "\<bar>of_int n :: rat\<bar> / 2 powi (binade \<bar>of_int n :: rat\<bar> - 52) =
        of_nat N / 2 powi (int (bitlen N) - 1 - 52)"
      by (simp only: a p)
    also have "\<dots> = of_nat N / 2" by (simp add: b)
    also have "\<dots> = of_int (2 ^ 52)" by (simp add: N)
    finally show ?thesis ..
  qed
  then obtain K where "\<bar>of_int n :: rat\<bar> / 2 powi (binade \<bar>of_int n :: rat\<bar> - 52) = of_int K" ..
  moreover have "(of_int n :: rat) \<noteq> 0" using False by simp
  ultimately show ?thesis by (rule binary64_scaled [rotated])
qed

lemma Number_of_int_exact:
  assumes "\<bar>n\<bar> \<le> 2 ^ 53"
  shows "Number_of_int n = Num n"
proof -
  have "\<bar>n\<bar> < 2 ^ 1024" using assms by (rule order_le_less_trans) simp
  then have "\<bar>of_int n :: rat\<bar> < 2 ^ 1024"
    by (metis of_int_abs of_int_less_iff of_int_numeral of_int_power)
  then show ?thesis
    by (simp add: Number_of_int_def binary64_of_int [OF assms] not_le [symmetric])
qed

lemma binary64_half: "binary64 (1 / 2) = 1 / 2"
proof -
  have "bitlen 0 = 0" by (subst bitlen.simps) simp
  then have b: "bitlen (Suc 0) = Suc 0" by (subst bitlen.simps) simp
  have "binade \<bar>1 / 2 :: rat\<bar> = - 1" by (simp add: binade_def b)
  then have "\<bar>1 / 2 :: rat\<bar> / 2 powi (binade \<bar>1 / 2 :: rat\<bar> - 52) = of_int (2 ^ 52)"
    by (simp add: power_int_minus)
  then show ?thesis by (intro binary64_scaled) simp_all
qed

lemma toFixed2_half: "toFixed2 (1 / 2) = 1 / 2"
proof -
  have "\<lfloor>101 / 2 :: rat\<rfloor> = 50" by (rule floor_unique) simp_all
  then show ?thesis by (simp add: toFixed2_def)
qed

lemma bitlen_double: "0 < n \<Longrightarrow> bitlen (2 * n) = Suc (bitlen n)"
  by (subst bitlen.simps) simp

lemma bitlen_pow2: "bitlen (2 ^ k) = Suc k"
proof (induction k)
  case 0
  have "bitlen 0 = 0" by (subst bitlen.simps) simp
  then have "bitlen (Suc 0) = Suc 0" by (subst bitlen.simps) simp
  then show ?case by simp
next
  case (Suc k)
  then show ?case by (simp add: bitlen_double)
qed

lemma bitlen_pow2_Suc:
  assumes "0 < k"
  shows "bitlen (2 ^ k + 1) = Suc k"
proof -
  obtain j where k: "k = Suc j" using assms by (cases k) auto
  have "(2 ^ k + 1) div 2 = (2 ^ j :: nat)" by (simp add: k)
  then have "bitlen (2 ^ k + 1) = Suc (bitlen (2 ^ j))" by (subst bitlen.simps) simp
  then show ?thesis by (simp add: bitlen_pow2 k)
qed

lemma Number_of_int_rounds: "Number_of_int (- (2 ^ 53 + 1)) = Num (- (2 ^ 53))"
proof -
  let ?q = "of_int (- (2 ^ 53 + 1)) :: rat"
  have abs: "\<bar>?q\<bar> = 2 ^ 53 + 1" by simp
  have fl: "\<lfloor>2 ^ 53 + 1 :: rat\<rfloor> = 2 ^ 53 + 1"
    by (metis floor_of_int of_int_1 of_int_add of_int_numeral of_int_power)
  have "nat (2 ^ 53 + 1) = (2 ^ 53 + 1 :: nat)" by simp
  then have p: "binade (2 ^ 53 + 1) = 53"
    unfolding binade_def fl using bitlen_pow2_Suc [of 53] by simp
  have r: "roundTiesToEven ((2 ^ 53 + 1) / 2) = 2 ^ 52"
  proof -
    have f: "\<lfloor>(2 ^ 53 + 1) / 2 :: rat\<rfloor> = 2 ^ 52" by (rule floor_unique) simp_all
    show ?thesis unfolding roundTiesToEven_def Let_def f by simp
  qed
  have "binary64 ?q = - (2 ^ 53)"
    unfolding binary64_def Let_def abs p using r by simp
  then show ?thesis by (simp add: Number_of_int_def)
qed

lemma Number_of_int_overflow: "Number_of_int (- (2 ^ 1024)) = NegInf"
proof -
  let ?q = "of_int (- (2 ^ 1024)) :: rat"
  have abs: "\<bar>?q\<bar> = 2 ^ 1024" by simp
  have fl: "\<lfloor>2 ^ 1024 :: rat\<rfloor> = 2 ^ 1024"
    by (metis floor_of_int of_int_numeral of_int_power)
  have "nat (2 ^ 1024) = (2 ^ 1024 :: nat)" by simp
  then have p: "binade (2 ^ 1024) = 1024"
    unfolding binade_def fl using bitlen_pow2 [of 1024] by simp
  have "\<bar>?q\<bar> / 2 powi (binade \<bar>?q\<bar> - 52) = of_int (2 ^ 52)"
    unfolding abs p by (simp add: power_int_def)
  then have "binary64 ?q = ?q" by (intro binary64_scaled) simp_all
  then show ?thesis by (simp add: Number_of_int_def)
qed

section \<open>Facts about parseInt and the decimal digits\<close>

lemmas parseInt_eval = parseInt_def StrWhiteSpaceChar_def isRadixDigit_def digitValue_def mathInt_def
  Number_of_int_exact

lemma parseInt_undefined: "parseInt ''undefined'' = NaN"
  by (simp add: parseInt_def StrWhiteSpaceChar_def isRadixDigit_def digitValue_def)

lemma parseInt_5: "parseInt ''5'' = Num 5"
  by (simp add: parseInt_eval)

lemma parseInt_0: "parseInt ''0'' = Num 0"
  by (simp add: parseInt_eval)

lemma parseInt_rounds: "parseInt ''-9007199254740993'' = Num (- 9007199254740992)"
proof -
  have "parseInt ''-9007199254740993'' = Number_of_int (- (2 ^ 53 + 1))"
    by (simp add: parseInt_def StrWhiteSpaceChar_def isRadixDigit_def digitValue_def mathInt_def)
  then show ?thesis using Number_of_int_rounds by simp
qed

text \<open>
  Reading back the digits that \<open>Number_toString\<close> writes gives the number, also when
  the unit follows the digits.
\<close>

lemma digit_cases:
  "d < 10 \<Longrightarrow> d = 0 \<or> d = 1 \<or> d = 2 \<or> d = 3 \<or> d = 4 \<or> d = 5 \<or> d = 6 \<or> d = 7 \<or> d = 8 \<or> d = (9::nat)"
  by arith

lemma digitValue_digit_char: "d < 10 \<Longrightarrow> digitValue (digit_char d) = Some d"
  by (drule digit_cases) (auto simp: digitValue_def digit_char_def)

lemma digit_char_not_space: "d < 10 \<Longrightarrow> \<not> StrWhiteSpaceChar (digit_char d)"
  by (drule digit_cases) (auto simp: StrWhiteSpaceChar_def digit_char_def)

lemma digit_char_not_sign:
  "d < 10 \<Longrightarrow> digit_char d \<noteq> CHR ''-'' \<and> digit_char d \<noteq> CHR ''+'' \<and>
     digit_char d \<noteq> CHR ''x'' \<and> digit_char d \<noteq> CHR ''X''"
  by (drule digit_cases) (auto simp: digit_char_def)

lemma digits10_digits: "c \<in> set (digits10 n) \<Longrightarrow> \<exists>d<10. c = digit_char d"
proof (induction n arbitrary: c rule: digits10.induct)
  case (1 n)
  show ?case
  proof (cases "n < 10")
    case True
    with "1.prems" show ?thesis by (subst (asm) digits10.simps) auto
  next
    case False
    with "1.prems" have "c \<in> set (digits10 (n div 10)) \<or> c = digit_char (n mod 10)"
      by (subst (asm) digits10.simps) auto
    then show ?thesis
    proof
      assume "c \<in> set (digits10 (n div 10))"
      with "1.IH" False show ?thesis by simp
    next
      assume "c = digit_char (n mod 10)"
      moreover have "n mod 10 < 10" by simp
      ultimately show ?thesis by blast
    qed
  qed
qed

lemma digits10_not_Nil: "digits10 n \<noteq> []"
  by (subst digits10.simps) simp

lemma mathInt_append:
  "mathInt R (xs @ [c]) = (case digitValue c of None \<Rightarrow> mathInt R xs | Some v \<Rightarrow> mathInt R xs * R + v)"
  by (simp add: mathInt_def split: option.splits)

lemma mathInt_digits10: "mathInt 10 (digits10 n) = n"
proof (induction n rule: digits10.induct)
  case (1 n)
  show ?case
  proof (cases "n < 10")
    case True
    then show ?thesis
      by (subst digits10.simps) (simp add: mathInt_def digitValue_digit_char)
  next
    case False
    with "1.IH" have ih: "mathInt 10 (digits10 (n div 10)) = n div 10" by simp
    have "digits10 n = digits10 (n div 10) @ [digit_char (n mod 10)]"
      using False by (subst digits10.simps) simp
    then show ?thesis
      by (simp add: mathInt_append digitValue_digit_char ih)
  qed
qed

lemma takeWhile_digits10:
  "takeWhile (isRadixDigit 10) (digits10 n @ CHR '' '' # rest) = digits10 n"
proof -
  have "\<forall>c\<in>set (digits10 n). isRadixDigit 10 c"
    using digits10_digits by (fastforce simp: isRadixDigit_def digitValue_digit_char)
  moreover have "\<not> isRadixDigit 10 (CHR '' '')"
    by (simp add: isRadixDigit_def digitValue_def)
  ultimately show ?thesis by (simp add: takeWhile_append2)
qed

lemma parseInt_digits10: "parseInt (digits10 n @ '' MB'') = Number_of_int (int n)"
proof -
  obtain c cs where cs: "digits10 n = c # cs" using digits10_not_Nil by (cases "digits10 n") auto
  then have "c \<in> set (digits10 n)" by simp
  then obtain d where d: "d < 10" "c = digit_char d" using digits10_digits by blast
  have c: "\<not> StrWhiteSpaceChar c" "c \<noteq> CHR ''-''" "c \<noteq> CHR ''+''"
    using d digit_char_not_space digit_char_not_sign by auto
  have nox: "take 2 (digits10 n @ '' MB'') \<noteq> ''0x'' \<and> take 2 (digits10 n @ '' MB'') \<noteq> ''0X''"
  proof (cases cs)
    case Nil
    with cs show ?thesis by simp
  next
    case (Cons c' cs')
    with cs have "c' \<in> set (digits10 n)" by simp
    then obtain d' where "d' < 10" "c' = digit_char d'" using digits10_digits by blast
    then have "c' \<noteq> CHR ''x'' \<and> c' \<noteq> CHR ''X''" using digit_char_not_sign by auto
    with cs Cons show ?thesis by simp
  qed
  have dw: "dropWhile StrWhiteSpaceChar (digits10 n @ '' MB'') = digits10 n @ '' MB''"
    using cs c by simp
  have tw: "takeWhile (isRadixDigit 10) (digits10 n @ '' MB'') = digits10 n"
    using takeWhile_digits10 [of n "''MB''"] by simp
  have hd: "hd (digits10 n @ '' MB'') = c" using cs by simp
  show ?thesis
    unfolding parseInt_def dw Let_def hd
    using c nox by (simp add: tw digits10_not_Nil mathInt_digits10)
qed

lemma Math_round_MB_div: "Math_round_MB bytes = (int bytes + 524288) div 1048576"
proof -
  have "(of_nat bytes / 1024 / 1024 :: rat) + 1 / 2 = of_int (int bytes + 524288) / of_int 1048576"
    by (simp add: field_simps)
  then show ?thesis
    unfolding Math_round_MB_def by (simp only: floor_divide_of_int_eq)
qed

lemma Math_round_MB_nonneg: "0 \<le> Math_round_MB bytes"
  by (simp add: Math_round_MB_div)

lemma parseInt_MB:
  "parseInt (Number_toString (Math_round_MB bytes) @ '' MB'') = Number_of_int (Math_round_MB bytes)"
  using Math_round_MB_nonneg [of bytes]
  by (simp add: Number_toString_def parseInt_digits10)

section \<open>Facts about the load test\<close>

lemma load_duration_cases:
  "load_duration q =
     (case parseInt (ToString q) of NaN \<Rightarrow> Num 5
      | Num n \<Rightarrow> if n = 0 then Num 5 else Num (min n 30)
      | PosInf \<Rightarrow> Num 30
      | NegInf \<Rightarrow> NegInf)"
  by (simp add: load_duration_def js_or_def split: number.splits)

text \<open>
  The loop skips the readings below the deadline; its count is the number of readings
  skipped.
\<close>

lemma busy_loop_dropWhile:
  "busy_loop (Num e) clock k =
     (case dropWhile (\<lambda>t. t < e) clock of
        [] \<Rightarrow> None
      | now # rest \<Rightarrow> Some (k + length (takeWhile (\<lambda>t. t < e) clock), rest))"
proof (induction clock arbitrary: k)
  case Nil
  show ?case by simp
next
  case (Cons a clock)
  show ?case
  proof (cases "a < e")
    case True
    then have "busy_loop (Num e) (a # clock) k = busy_loop (Num e) clock (Suc k)" by simp
    also note Cons.IH [of "Suc k"]
    finally show ?thesis using True by (cases "dropWhile (\<lambda>t. t < e) clock") (simp_all del: dropWhile_eq_Nil_conv)
  next
    case False
    then show ?thesis by simp
  qed
qed

lemma dropWhile_two:
  "\<exists>t\<in>set (butlast xs). \<not> P t \<Longrightarrow> \<exists>a b rest. dropWhile P xs = a # b # rest"
proof (induction xs)
  case Nil
  then show ?case by simp
next
  case (Cons x xs)
  show ?case
  proof (cases "P x")
    case True
    with Cons.prems have "\<exists>t\<in>set (butlast xs). \<not> P t" by (auto split: if_splits)
    with Cons.IH True show ?thesis by simp
  next
    case False
    from Cons.prems have "xs \<noteq> []" by auto
    then obtain b rest where "xs = b # rest" by (cases xs) auto
    with False show ?thesis by simp
  qed
qed

lemma load_completes:
  assumes dur: "load_duration q = Num d"
    and dw: "dropWhile (\<lambda>t. t < startTime + d * 1000) clock1 = a # now # rest"
  shows "load h q (startTime # clock1) m =
     Some (\<lparr>statusCode = 200,
            payload = Json (JObj
              [(''status'', JStr ''completed''),
               (''hostname'', JStr h),
               (''requestedDuration'', JNum (of_int d)),
               (''actualDuration'',
                  JNum (parseFloat (toFixed2 (binary64 (of_int (now - startTime) / 1000))))),
               (''iterations'',
                  JNum (of_nat (length (takeWhile (\<lambda>t. t < startTime + d * 1000) clock1)))),
               (''message'', JStr load_message)])\<rparr>,
           m\<lparr>loadTestsTotal := loadTestsTotal m + 1\<rparr>)"
  by (simp add: load_def dur busy_loop_dropWhile dw)

lemma load_returns_duration:
  assumes "load h q clock m = Some (r, m')"
  shows "statusCode r = 200 \<and>
         payload_field ''requestedDuration'' r = Some (json_of_number (load_duration q))"
  using assms
  by (auto simp: load_def Let_def split: list.splits option.splits prod.splits)

lemma load_cong:
  "load_duration q = load_duration q' \<Longrightarrow> load h q clock m = load h q' clock m"
  by (cases clock) (simp_all add: load_def)

lemma load_iterations:
  assumes "load h q (startTime # clock1) m = Some (r, m')" "load_duration q = Num d"
  shows "payload_field ''iterations'' r =
           Some (JNum (of_nat (length (takeWhile (\<lambda>t. t < startTime + d * 1000) clock1))))"
  using assms
  by (auto simp: load_def Let_def busy_loop_dropWhile simp del: dropWhile_eq_Nil_conv
           split: list.splits option.splits prod.splits)

text \<open>
  When the clock never runs backwards and reaches the deadline before its last reading,
  the handler returns, and the elapsed time that it reports is not below the duration.
\<close>

lemma load_full_duration:
  assumes d: "1 \<le> d" "d \<le> 30"
    and dur: "load_duration q = Num d"
    and mono: "sorted (startTime # clock1)"
    and t: "t \<in> set (butlast clock1)" "startTime + d * 1000 \<le> t"
  shows "\<exists>r m' a. load h q (startTime # clock1) m = Some (r, m') \<and>
           payload_field ''requestedDuration'' r = Some (JNum (of_int d)) \<and>
           payload_field ''actualDuration'' r = Some (JNum a) \<and> of_int d \<le> a"
proof -
  let ?P = "\<lambda>t. t < startTime + d * 1000"
  have "\<not> ?P t" using t(2) by simp
  with t(1) have "\<exists>t\<in>set (butlast clock1). \<not> ?P t" by (rule rev_bexI)
  then have "\<exists>a now rest. dropWhile ?P clock1 = a # now # rest" by (rule dropWhile_two)
  then obtain a now rest where dw: "dropWhile ?P clock1 = a # now # rest" by (elim exE)
  have "\<not> ?P (hd (dropWhile ?P clock1))" by (rule hd_dropWhile) (simp add: dw)
  then have a: "startTime + d * 1000 \<le> a" by (simp add: dw)
  from mono have "sorted clock1" by simp
  then have "sorted (dropWhile ?P clock1)" by (rule sorted_dropWhile)
  then have "a \<le> now" by (simp add: dw)
  with a have "d * 1000 \<le> now - startTime" by simp
  then have "(of_int (d * 1000) :: rat) \<le> of_int (now - startTime)" by (simp only: of_int_le_iff)
  then have q: "(of_int d :: rat) \<le> of_int (now - startTime) / 1000" by simp
  have d53: "0 < d" "d \<le> 2 ^ 53" "0 \<le> d" using d by simp_all
  from binary64_ge_int [OF d53(1,2) q]
  have "of_int d \<le> toFixed2 (binary64 (of_int (now - startTime) / 1000))"
    by (rule toFixed2_ge_int [OF d53(3)])
  then have "of_int d \<le> parseFloat (toFixed2 (binary64 (of_int (now - startTime) / 1000)))"
    unfolding parseFloat_def by (rule binary64_ge_int [OF d53(1,2)])
  then show ?thesis
    by (simp add: load_completes [OF dur dw])
qed

section \<open>Facts about the middleware and the limiter\<close>

lemma router_request_effect:
  "router_request m req start matched completion True now =
     (route_handler matched m)
       \<lparr>httpRequestsTotal :=
          (httpRequestsTotal m)
            ((http_method req, path req, final_status completion) :=
               httpRequestsTotal m (http_method req, path req, final_status completion) + 1),
        httpRequestDuration :=
          (httpRequestDuration m)
            ((http_method req, path req) :=
               httpRequestDuration m (http_method req, path req) @
                 [binary64 (of_int (now - start) / 1000)])\<rparr>"
  by (cases matched) (simp_all add: router_request_def track_finish_def track_start_def Let_def)

lemma limiter_skip: "skip req \<Longrightarrow> limiter store req now = (Next, store)"
  by (simp add: limiter_def)

lemma limiter_in_window:
  assumes "\<not> skip req" "store (ip req) = Some (hits, resetTime)" "now < resetTime"
  shows "limiter store req now =
           (if 1000 \<le> hits then TooManyRequests else Next,
            store(ip req \<mapsto> (hits + 1, resetTime)))"
  using assms by (auto simp: limiter_def store_increment_def max_requests_def Let_def)

lemma limiter_new_window:
  assumes "\<not> skip req" "store (ip req) = None \<or> (\<exists>hits resetTime. store (ip req) = Some (hits, resetTime) \<and> resetTime \<le> now)"
  shows "limiter store req now = (Next, store(ip req \<mapsto> (1, now + 900000)))"
  using assms by (auto simp: limiter_def store_increment_def max_requests_def windowMs_def Let_def)

lemma limiter_run_in_window:
  assumes "store a = Some (hits, resetTime)"
    and "\<forall>(req, now)\<in>set rs. ip req = a \<and> \<not> skip req \<and> now < resetTime"
  shows "limiter_run store rs =
           map (\<lambda>k. if 1000 \<le> hits + k then TooManyRequests else Next) [0..<length rs]"
  using assms
proof (induction rs arbitrary: store hits)
  case Nil
  show ?case by simp
next
  case (Cons x rs)
  obtain req now where x: "x = (req, now)" by (cases x)
  from Cons.prems x have r: "ip req = a" "\<not> skip req" "now < resetTime" by auto
  from limiter_in_window [OF r(2) _ r(3), of store hits] Cons.prems(1) r(1)
  have l: "limiter store req now =
           (if 1000 \<le> hits then TooManyRequests else Next, store(a \<mapsto> (hits + 1, resetTime)))"
    by simp
  have "(store(a \<mapsto> (hits + 1, resetTime))) a = Some (hits + 1, resetTime)" by simp
  moreover from Cons.prems have "\<forall>(req, now)\<in>set rs. ip req = a \<and> \<not> skip req \<and> now < resetTime"
    by simp
  ultimately have ih: "limiter_run (store(a \<mapsto> (hits + 1, resetTime))) rs =
           map (\<lambda>k. if 1000 \<le> hits + 1 + k then TooManyRequests else Next) [0..<length rs]"
    by (rule Cons.IH)
  have "[0..<length (x # rs)] = 0 # map Suc [0..<length rs]"
    by (simp add: upt_conv_Cons map_Suc_upt del: upt_Suc)
  with ih show ?case
    by (simp add: x l comp_def del: upt_Suc)
qed

lemma router_request_unfinished:
  "router_request m req start matched completion False now = route_handler matched (track_start m)"
  by (simp add: router_request_def)

lemma limiter_run_append:
  "limiter_run store (xs @ ys) = limiter_run store xs @ limiter_run (limiter_after store xs) ys"
proof (induction xs arbitrary: store)
  case Nil
  show ?case by simp
next
  case (Cons x xs)
  obtain req now where x: "x = (req, now)" by (cases x)
  obtain v store1 where l: "limiter store req now = (v, store1)" by (cases "limiter store req now")
  show ?case by (simp add: x l Cons.IH)
qed

lemma limiter_after_in_window:
  assumes "store a = Some (hits, resetTime)"
    and "\<forall>(req, now)\<in>set rs. ip req = a \<and> \<not> skip req \<and> now < resetTime"
  shows "limiter_after store rs a = Some (hits + length rs, resetTime)"
  using assms
proof (induction rs arbitrary: store hits)
  case Nil
  then show ?case by simp
next
  case (Cons x rs)
  obtain req now where x: "x = (req, now)" by (cases x)
  from Cons.prems x have r: "ip req = a" "\<not> skip req" "now < resetTime" by auto
  from limiter_in_window [OF r(2) _ r(3), of store hits] Cons.prems(1) r(1)
  have l: "limiter store req now =
           (if 1000 \<le> hits then TooManyRequests else Next, store(a \<mapsto> (hits + 1, resetTime)))"
    by simp
  have "(store(a \<mapsto> (hits + 1, resetTime))) a = Some (hits + 1, resetTime)" by simp
  moreover from Cons.prems have "\<forall>(req, now)\<in>set rs. ip req = a \<and> \<not> skip req \<and> now < resetTime"
    by simp
  ultimately have "limiter_after (store(a \<mapsto> (hits + 1, resetTime))) rs a =
      Some (hits + 1 + length rs, resetTime)"
    by (rule Cons.IH)
  then show ?case by (simp add: x l)
qed

lemma limiter_window:
  assumes rs: "rs = (req0, t0) # rest"
    and client: "\<forall>(req, now)\<in>set rs.
        ip req = a \<and> path req \<notin> {''/health'', ''/ready'', ''/metrics''} \<and>
        t0 \<le> now \<and> now < t0 + 15 * 60 * 1000"
    and fresh: "store a = None \<or> (\<exists>hits resetTime. store a = Some (hits, resetTime) \<and> resetTime \<le> t0)"
  shows "limiter_run store rs =
           map (\<lambda>k. if k < 1000 then Next else TooManyRequests) [0..<length rs] \<and>
         limiter_after store rs a = Some (length rs, t0 + 15 * 60 * 1000)"
proof -
  from rs client have r0: "ip req0 = a" "\<not> skip req0" by (auto simp: skip_def)
  from fresh r0 have "store (ip req0) = None \<or>
      (\<exists>hits resetTime. store (ip req0) = Some (hits, resetTime) \<and> resetTime \<le> t0)" by simp
  with r0(2) have l: "limiter store req0 t0 = (Next, store(a \<mapsto> (1, t0 + 900000)))"
    using limiter_new_window [of req0 store t0] r0(1) by simp
  have s1: "(store(a \<mapsto> (1, t0 + 900000))) a = Some (1, t0 + 900000)" by simp
  from rs client
  have w: "\<forall>(req, now)\<in>set rest. ip req = a \<and> \<not> skip req \<and> now < t0 + 900000"
    by (auto simp: skip_def)
  from s1 w have run: "limiter_run (store(a \<mapsto> (1, t0 + 900000))) rest =
      map (\<lambda>k. if 1000 \<le> 1 + k then TooManyRequests else Next) [0..<length rest]"
    by (rule limiter_run_in_window)
  from s1 w have after: "limiter_after (store(a \<mapsto> (1, t0 + 900000))) rest a =
      Some (1 + length rest, t0 + 900000)"
    by (rule limiter_after_in_window)
  have "[0..<length rs] = 0 # map Suc [0..<length rest]"
    by (simp add: rs upt_conv_Cons map_Suc_upt del: upt_Suc)
  with run have "limiter_run store rs =
      map (\<lambda>k. if k < 1000 then Next else TooManyRequests) [0..<length rs]"
    by (simp add: rs l comp_def del: upt_Suc)
  moreover from after have "limiter_after store rs a = Some (length rs, t0 + 15 * 60 * 1000)"
    by (simp add: rs l)
  ultimately show ?thesis ..
qed

section \<open>The claims\<close>

subsection \<open>C1: the range of the requested duration\<close>

text \<open>
  As first stated, the requested duration of every response would lie between 1 and 30.
  A negative \<open>duration\<close> is truthy, so it skips the default, and \<open>Math.min\<close> only
  bounds it from above: \<open>/load?duration=-5\<close> answers with \<open>requestedDuration\<close> \<open>-5\<close>.
\<close>

theorem load_negative_duration_counterexample:
  "map_option (payload_field ''requestedDuration'' \<circ> fst)
     (load ''pod-1'' (Some ''-5'') [1000, 1000, 1003] new_registry) = Some (Some (JNum (- 5)))"
  by (simp add: load_def load_duration_def js_or_def parseInt_eval)

text \<open>
  C1 (amended). In the result of every GET /load request, \<open>requestedDuration\<close> is an
  integer from 1 to 30, unless \<open>parseInt\<close> reads the \<open>duration\<close> parameter as a negative
  Number: then it is that Number, a negative integer or, for \<open>-Infinity\<close>, \<open>null\<close>.
\<close>

theorem load_requestedDuration_bounds:
  assumes "load h q clock m = Some (r, m')"
  shows "(\<exists>d. payload_field ''requestedDuration'' r = Some (JNum (of_int d)) \<and> 1 \<le> d \<and> d \<le> 30) \<or>
         (\<exists>n<0. parseInt (ToString q) = Num n \<and>
                payload_field ''requestedDuration'' r = Some (JNum (of_int n))) \<or>
         parseInt (ToString q) = NegInf \<and> payload_field ''requestedDuration'' r = Some JNull"
proof -
  from load_returns_duration [OF assms]
  have f: "payload_field ''requestedDuration'' r = Some (json_of_number (load_duration q))" by simp
  show ?thesis
  proof (cases "parseInt (ToString q)")
    case NaN
    then have "load_duration q = Num 5" by (simp add: load_duration_cases)
    with f have "payload_field ''requestedDuration'' r = Some (JNum (of_int 5)) \<and>
        (1::int) \<le> 5 \<and> (5::int) \<le> 30" by simp
    then show ?thesis by blast
  next
    case (Num n)
    show ?thesis
    proof (cases "0 < n")
      case True
      with Num have "load_duration q = Num (min n 30)" by (simp add: load_duration_cases)
      with f True have "payload_field ''requestedDuration'' r = Some (JNum (of_int (min n 30))) \<and>
          1 \<le> min n 30 \<and> min n 30 \<le> 30" by simp
      then show ?thesis by blast
    next
      case False
      show ?thesis
      proof (cases "n = 0")
        case True
        with Num have "load_duration q = Num 5" by (simp add: load_duration_cases)
        with f have "payload_field ''requestedDuration'' r = Some (JNum (of_int 5)) \<and>
            (1::int) \<le> 5 \<and> (5::int) \<le> 30" by simp
        then show ?thesis by blast
      next
        case nz: False
        with False have neg: "n < 0" by simp
        with Num have "load_duration q = Num n" by (simp add: load_duration_cases)
        with f neg Num show ?thesis by auto
      qed
    qed
  next
    case PosInf
    then have "load_duration q = Num 30" by (simp add: load_duration_cases)
    with f have "payload_field ''requestedDuration'' r = Some (JNum (of_int 30)) \<and>
        (1::int) \<le> 30 \<and> (30::int) \<le> 30" by simp
    then show ?thesis by blast
  next
    case NegInf
    then have "load_duration q = NegInf" by (simp add: load_duration_cases)
    with f NegInf show ?thesis by simp
  qed
qed

theorem load_requestedDuration_bounds_witness:
  "\<exists>r m'. load ''pod-1'' (Some ''7'') [0, 3500, 7000, 7002] new_registry = Some (r, m') \<and>
     ((\<exists>d. payload_field ''requestedDuration'' r = Some (JNum (of_int d)) \<and> 1 \<le> d \<and> d \<le> 30) \<or>
      (\<exists>n<0. parseInt (ToString (Some ''7'')) = Num n \<and>
             payload_field ''requestedDuration'' r = Some (JNum (of_int n))) \<or>
      parseInt (ToString (Some ''7'')) = NegInf \<and>
        payload_field ''requestedDuration'' r = Some JNull)"
proof -
  have "\<exists>r m'. load ''pod-1'' (Some ''7'') [0, 3500, 7000, 7002] new_registry = Some (r, m')"
    by (simp add: load_def load_duration_def js_or_def parseInt_eval)
  then obtain r m' where
    l: "load ''pod-1'' (Some ''7'') [0, 3500, 7000, 7002] new_registry = Some (r, m')"
    by (elim exE)
  from load_requestedDuration_bounds [OF l] l show ?thesis by blast
qed

subsection \<open>C2: a duration between 1 and 30\<close>

text \<open>
  As first stated, the reported elapsed time would never be below the duration.
  \<open>Date.now()\<close> is the wall clock, which can be set back: when the reading taken after
  the loop is 500 ms behind the reading that ended a loop of one second, the result has
  \<open>actualDuration\<close> 0.5.
\<close>

theorem load_clock_set_back_counterexample:
  "map_option (payload_field ''actualDuration'' \<circ> fst)
     (load ''pod-1'' (Some ''1'') [1000, 1400, 2000, 1500] new_registry) =
   Some (Some (JNum (1 / 2)))"
  by (simp add: load_def load_duration_def js_or_def parseInt_eval parseFloat_def
        binary64_half toFixed2_half)

text \<open>
  C2 (amended). Let the \<open>duration\<close> parameter parse to an integer \<open>d\<close> with \<open>1 \<le> d \<le> 30\<close>,
  and let some clock reading before the last one have reached \<open>startTime + d * 1000\<close>.
  Then GET /load returns with status 200: \<open>requestedDuration\<close> is \<open>d\<close>, \<open>iterations\<close> is
  the number of readings below that deadline, and \<open>actualDuration\<close> is the time from the
  start to the reading \<open>now\<close> taken after the loop, in seconds with two decimals. It is at
  least \<open>d\<close> whenever \<open>now\<close> is not behind the reading \<open>a\<close> that ended the loop.
\<close>

theorem load_valid_duration:
  assumes d: "1 \<le> d" "d \<le> 30"
    and s: "parseInt s = Num d"
    and t: "t \<in> set (butlast clock1)" "startTime + d * 1000 \<le> t"
  shows "\<exists>a now rest actual.
           dropWhile (\<lambda>t. t < startTime + d * 1000) clock1 = a # now # rest \<and>
           actual = parseFloat (toFixed2 (binary64 (of_int (now - startTime) / 1000))) \<and>
           load h (Some s) (startTime # clock1) m =
             Some (\<lparr>statusCode = 200,
                    payload = Json (JObj
                      [(''status'', JStr ''completed''),
                       (''hostname'', JStr h),
                       (''requestedDuration'', JNum (of_int d)),
                       (''actualDuration'', JNum actual),
                       (''iterations'',
                          JNum (of_nat (length (takeWhile (\<lambda>t. t < startTime + d * 1000) clock1)))),
                       (''message'', JStr load_message)])\<rparr>,
                   m\<lparr>loadTestsTotal := loadTestsTotal m + 1\<rparr>) \<and>
           (a \<le> now \<longrightarrow> of_int d \<le> actual)"
proof -
  let ?P = "\<lambda>t. t < startTime + d * 1000"
  have "load_duration (Some s) = Num (min d 30)"
    using d s by (simp add: load_duration_cases)
  also have "min d 30 = d" using d by simp
  finally have dur: "load_duration (Some s) = Num d" .
  have "\<not> ?P t" using t(2) by simp
  with t(1) have "\<exists>t\<in>set (butlast clock1). \<not> ?P t" by (rule rev_bexI)
  then have "\<exists>a now rest. dropWhile ?P clock1 = a # now # rest" by (rule dropWhile_two)
  then obtain a now rest where dw: "dropWhile ?P clock1 = a # now # rest" by (elim exE)
  have "\<not> ?P (hd (dropWhile ?P clock1))" by (rule hd_dropWhile) (simp add: dw)
  then have a: "startTime + d * 1000 \<le> a" by (simp add: dw)
  have ge: "of_int d \<le> parseFloat (toFixed2 (binary64 (of_int (now - startTime) / 1000)))"
    if "a \<le> now"
  proof -
    from a that have "d * 1000 \<le> now - startTime" by simp
    then have "(of_int (d * 1000) :: rat) \<le> of_int (now - startTime)" by (simp only: of_int_le_iff)
    then have q: "(of_int d :: rat) \<le> of_int (now - startTime) / 1000" by simp
    have d53: "0 < d" "d \<le> 2 ^ 53" "0 \<le> d" using d by simp_all
    from binary64_ge_int [OF d53(1,2) q]
    have "of_int d \<le> toFixed2 (binary64 (of_int (now - startTime) / 1000))"
      by (rule toFixed2_ge_int [OF d53(3)])
    then show ?thesis
      unfolding parseFloat_def by (rule binary64_ge_int [OF d53(1,2)])
  qed
  from dw load_completes [OF dur dw, of h m] ge show ?thesis by blast
qed

theorem load_valid_duration_witness:
  "\<exists>rest actual.
     dropWhile (\<lambda>t. t < 10000 + 2 * 1000) [11000, 12001, 12004 :: int] = 12001 # 12004 # rest \<and>
     actual = parseFloat (toFixed2 (binary64 (of_int (12004 - 10000) / 1000))) \<and>
     load ''pod-1'' (Some ''2'') [10000, 11000, 12001, 12004] new_registry =
       Some (\<lparr>statusCode = 200,
              payload = Json (JObj
                [(''status'', JStr ''completed''),
                 (''hostname'', JStr ''pod-1''),
                 (''requestedDuration'', JNum 2),
                 (''actualDuration'', JNum actual),
                 (''iterations'', JNum 1),
                 (''message'', JStr load_message)])\<rparr>,
             new_registry\<lparr>loadTestsTotal := loadTestsTotal new_registry + 1\<rparr>) \<and>
     2 \<le> actual"
proof -
  have h: "1 \<le> (2::int)" "(2::int) \<le> 30" "parseInt ''2'' = Num 2"
    "(12001::int) \<in> set (butlast [11000, 12001, 12004])" "(10000::int) + 2 * 1000 \<le> 12001"
    by (simp_all add: parseInt_eval)
  from load_valid_duration [OF h, of "''pod-1''" new_registry]
  obtain a now rest actual where
    dw: "dropWhile (\<lambda>t. t < 10000 + 2 * 1000) [11000, 12001, 12004 :: int] = a # now # rest"
    and ac: "actual = parseFloat (toFixed2 (binary64 (of_int (now - 10000) / 1000)))"
    and l: "load ''pod-1'' (Some ''2'') [10000, 11000, 12001, 12004] new_registry =
             Some (\<lparr>statusCode = 200,
                    payload = Json (JObj
                      [(''status'', JStr ''completed''),
                       (''hostname'', JStr ''pod-1''),
                       (''requestedDuration'', JNum (of_int 2)),
                       (''actualDuration'', JNum actual),
                       (''iterations'',
                          JNum (of_nat (length (takeWhile (\<lambda>t. t < 10000 + 2 * 1000)
                             [11000, 12001, 12004 :: int])))),
                       (''message'', JStr load_message)])\<rparr>,
                   new_registry\<lparr>loadTestsTotal := loadTestsTotal new_registry + 1\<rparr>)"
    and ge: "a \<le> now \<longrightarrow> of_int 2 \<le> actual"
    by blast
  from dw have an: "a = 12001" "now = 12004" "rest = []" by simp_all
  with ge have g: "2 \<le> actual" by simp
  have it: "length (takeWhile (\<lambda>t. t < 10000 + 2 * 1000) [11000, 12001, 12004 :: int]) = 1"
    by simp
  show ?thesis
  proof (intro exI conjI)
    show "dropWhile (\<lambda>t. t < 10000 + 2 * 1000) [11000, 12001, 12004 :: int] = 12001 # 12004 # rest"
      using dw an by simp
    show "actual = parseFloat (toFixed2 (binary64 (of_int (12004 - 10000) / 1000)))"
      using ac an by simp
    show "2 \<le> actual" by (rule g)
    show "load ''pod-1'' (Some ''2'') [10000, 11000, 12001, 12004] new_registry =
       Some (\<lparr>statusCode = 200,
              payload = Json (JObj
                [(''status'', JStr ''completed''),
                 (''hostname'', JStr ''pod-1''),
                 (''requestedDuration'', JNum 2),
                 (''actualDuration'', JNum actual),
                 (''iterations'', JNum 1),
                 (''message'', JStr load_message)])\<rparr>,
             new_registry\<lparr>loadTestsTotal := loadTestsTotal new_registry + 1\<rparr>)"
      using l unfolding it by simp
  qed
qed

subsection \<open>C3: the health probe\<close>

text \<open>
  C3. GET /health answers with status 200 and \<open>status\<close> \<open>healthy\<close>, whatever the
  increment of the survivor counter does; when the increment throws, \<open>survivorCount\<close> is
  0, and when it succeeds, \<open>survivorCount\<close> is its result.
\<close>

theorem health_always_healthy:
  "statusCode (health h ts up m1 m2 m3 redis_incr) = 200 \<and>
   payload_field ''status'' (health h ts up m1 m2 m3 redis_incr) = Some (JStr ''healthy'') \<and>
   payload_field ''survivorCount'' (health h ts up m1 m2 m3 (Inl e)) = Some (JNum 0) \<and>
   payload_field ''survivorCount'' (health h ts up m1 m2 m3 (Inr v)) = Some (JNum (of_int v))"
  by (simp add: health_def)

subsection \<open>C4: the tracking middleware\<close>

text \<open>
  As first stated, every request would be tracked. The application mounts the rate
  limiter before the router, so a request that the limiter answers with 429 never
  reaches the middleware: the registry stays as it was, and no request is counted.
\<close>

theorem tracking_counterexample:
  "app_request (new_store(''10.0.0.1'' \<mapsto> (1000, 900000)))
      new_registry \<lparr>http_method = ''GET'', path = ''/load'', ip = ''10.0.0.1''\<rparr>
      1000 None Load (Sent 200) True 6000
   = (429, new_registry, new_store(''10.0.0.1'' \<mapsto> (1001, 900000)))"
  by (simp add: app_request_def limiter_def skip_def store_increment_def max_requests_def Let_def)

text \<open>
  C4 (amended). For every request that reaches the router (the rate limiter passes it
  on, and the JSON parser, the documentation pages and the static files do not end it)
  and whose response is written out, so that its \<open>finish\<close> event is emitted, the
  middleware increments the gauge of active connections once at the start; at the
  \<open>finish\<close> event, whether the handler sent the response or threw (status 500), the
  counter of (method, path, status) is incremented once, the duration in seconds is
  appended to the histogram of (method, path), and the gauge is back at its value before
  the request.
\<close>

theorem tracking_per_request:
  assumes "limiter store req start = (Next, store1)"
  shows "\<exists>m'. app_request store m req start None matched completion True now =
                 (final_status completion, m', store1) \<and>
           activeConnections (track_start m) = activeConnections m + 1 \<and>
           m' = track_finish req start (final_status completion) now
                  (route_handler matched (track_start m)) \<and>
           activeConnections m' = activeConnections m \<and>
           httpRequestsTotal m' =
             (httpRequestsTotal m)
               ((http_method req, path req, final_status completion) :=
                  httpRequestsTotal m (http_method req, path req, final_status completion) + 1) \<and>
           httpRequestDuration m' =
             (httpRequestDuration m)
               ((http_method req, path req) :=
                  httpRequestDuration m (http_method req, path req) @
                    [binary64 (of_int (now - start) / 1000)])"
proof -
  have "app_request store m req start None matched completion True now =
          (final_status completion, router_request m req start matched completion True now, store1)"
    using assms by (simp add: app_request_def)
  moreover have "activeConnections (track_start m) = activeConnections m + 1"
    by (simp add: track_start_def)
  moreover have "activeConnections (router_request m req start matched completion True now) =
      activeConnections m"
    by (cases matched) (simp_all add: router_request_effect)
  moreover have "httpRequestsTotal (router_request m req start matched completion True now) =
             (httpRequestsTotal m)
               ((http_method req, path req, final_status completion) :=
                  httpRequestsTotal m (http_method req, path req, final_status completion) + 1)"
    by (cases matched) (simp_all add: router_request_effect)
  moreover have "httpRequestDuration (router_request m req start matched completion True now) =
             (httpRequestDuration m)
               ((http_method req, path req) :=
                  httpRequestDuration m (http_method req, path req) @
                    [binary64 (of_int (now - start) / 1000)])"
    by (cases matched) (simp_all add: router_request_effect)
  ultimately show ?thesis by (simp add: router_request_def)
qed

theorem tracking_per_request_witness:
  "limiter new_store \<lparr>http_method = ''GET'', path = ''/api/logs'', ip = ''10.0.0.1''\<rparr> 1000 =
     (Next, new_store(''10.0.0.1'' \<mapsto> (1, 901000))) \<and>
   (\<exists>m'. app_request new_store new_registry
            \<lparr>http_method = ''GET'', path = ''/api/logs'', ip = ''10.0.0.1''\<rparr> 1000 None ApiLogs
            (Thrown ''EACCES'') True 1040 =
          (500, m', new_store(''10.0.0.1'' \<mapsto> (1, 901000))) \<and>
      activeConnections m' = 0 \<and>
      httpRequestsTotal m' (''GET'', ''/api/logs'', 500) = 1)"
proof -
  have h: "limiter new_store \<lparr>http_method = ''GET'', path = ''/api/logs'', ip = ''10.0.0.1''\<rparr> 1000 =
     (Next, new_store(''10.0.0.1'' \<mapsto> (1, 901000)))"
    by (simp add: limiter_def skip_def store_increment_def new_store_def windowMs_def max_requests_def Let_def)
  from tracking_per_request [OF h, of new_registry ApiLogs "Thrown ''EACCES''" 1040] h
  show ?thesis by (auto simp: new_registry_def)
qed

subsection \<open>C5: the default duration\<close>

text \<open>
  C5. GET /load without a \<open>duration\<close> parameter gives the same result as
  \<open>duration=5\<close> on the same clock and registry: the duration is 5. So does every
  \<open>duration\<close> that \<open>parseInt\<close> does not read as a number.
\<close>

theorem load_default_duration:
  "load h None clock m = load h (Some ''5'') clock m \<and>
   load_duration None = Num 5 \<and>
   (parseInt s = NaN \<longrightarrow>
      load_duration (Some s) = Num 5 \<and> load h (Some s) clock m = load h (Some ''5'') clock m)"
proof -
  have 5: "load_duration (Some ''5'') = Num 5"
    by (simp add: load_duration_cases parseInt_5)
  have n: "load_duration None = Num 5"
    by (simp add: load_duration_cases parseInt_undefined)
  have a: "load h None clock m = load h (Some ''5'') clock m"
    by (rule load_cong) (simp only: 5 n)
  have b: "load_duration (Some s) = Num 5 \<and>
           load h (Some s) clock m = load h (Some ''5'') clock m" if "parseInt s = NaN"
  proof -
    have "load_duration (Some s) = Num 5"
      using that by (simp add: load_duration_cases)
    moreover from this have "load h (Some s) clock m = load h (Some ''5'') clock m"
      by (intro load_cong) (simp only: 5)
    ultimately show ?thesis by (rule conjI)
  qed
  show ?thesis
    by (intro conjI impI) (rule a, rule n, (simp only: b)+)
qed

theorem load_default_duration_witness:
  "parseInt ''abc'' = NaN \<and>
   load_duration (Some ''abc'') = Num 5 \<and>
   load ''pod-1'' (Some ''abc'') [0, 5000, 5003] new_registry =
     load ''pod-1'' (Some ''5'') [0, 5000, 5003] new_registry \<and>
   load ''pod-1'' None [0, 5000, 5003] new_registry =
     load ''pod-1'' (Some ''5'') [0, 5000, 5003] new_registry \<and>
   map_option (payload_field ''requestedDuration'' \<circ> fst)
     (load ''pod-1'' None [0, 5000, 5003] new_registry) = Some (Some (JNum 5))"
proof -
  have h: "parseInt ''abc'' = NaN" by (simp add: parseInt_eval)
  have r: "map_option (payload_field ''requestedDuration'' \<circ> fst)
     (load ''pod-1'' None [0, 5000, 5003] new_registry) = Some (Some (JNum 5))"
    by (simp add: load_def load_duration_def js_or_def parseInt_eval)
  from load_default_duration [of "''pod-1''" "[0, 5000, 5003]" new_registry "''abc''"] h r
  show ?thesis by (intro conjI) simp_all
qed

subsection \<open>C6: the upper bound\<close>



subsection \<open>C7: the memory fields of the health report\<close>

text \<open>
  As first stated, \<open>used\<close> and \<open>total\<close> would be integers. The handler appends
  \<open>' MB'\<close> to the rounded number, so both fields are strings: 12582912 bytes of heap give
  \<open>"12 MB"\<close>. The dashboard reads the number back with \<open>parseInt\<close>.
\<close>

theorem health_memory_counterexample:
  "Option.bind (payload_field ''memory''
      (health ''pod-1'' ''2024-01-01T00:00:00.000Z'' 10
         \<lparr>heapUsed = 12582912, heapTotal = 20971520\<rparr>
         \<lparr>heapUsed = 12582912, heapTotal = 20971520\<rparr>
         \<lparr>heapUsed = 12582912, heapTotal = 20971520\<rparr> (Inr 42)))
     (field ''used'') = Some (JStr ''12 MB'')"
  by (simp add: health_def Math_round_MB_div Number_toString_def digits10.simps digit_char_def)

text \<open>
  C7 (amended). In every health report, the \<open>used\<close> and \<open>total\<close> fields of \<open>memory\<close>
  are strings: the decimal digits of the heap size in bytes divided by \<open>1024 * 1024\<close>
  and rounded to the nearest integer (a half rounds up), followed by \<open>' MB'\<close>;
  \<open>parseInt\<close> reads the number of megabytes back from either string (exactly up to
  \<open>2^53\<close>, and as the nearest Number beyond).
\<close>

theorem health_memory_strings:
  "\<exists>used total.
     payload_field ''memory'' (health h ts up m1 m2 m3 redis_incr) =
       Some (JObj [(''used'', JStr (used @ '' MB'')), (''total'', JStr (total @ '' MB''))]) \<and>
     used \<noteq> [] \<and> set used \<subseteq> set ''0123456789'' \<and>
     total \<noteq> [] \<and> set total \<subseteq> set ''0123456789'' \<and>
     int (mathInt 10 used) = (int (heapUsed m1) + 524288) div 1048576 \<and>
     int (mathInt 10 total) = (int (heapTotal m2) + 524288) div 1048576 \<and>
     parseInt (used @ '' MB'') =
       (if (int (heapUsed m1) + 524288) div 1048576 \<le> 2 ^ 53
        then Num ((int (heapUsed m1) + 524288) div 1048576)
        else Number_of_int ((int (heapUsed m1) + 524288) div 1048576)) \<and>
     parseInt (total @ '' MB'') =
       (if (int (heapTotal m2) + 524288) div 1048576 \<le> 2 ^ 53
        then Num ((int (heapTotal m2) + 524288) div 1048576)
        else Number_of_int ((int (heapTotal m2) + 524288) div 1048576))"
proof -
  let ?u = "digits10 (nat (Math_round_MB (heapUsed m1)))"
  let ?t = "digits10 (nat (Math_round_MB (heapTotal m2)))"
  have ds: "set (digits10 n) \<subseteq> set ''0123456789''" for n
  proof
    fix c assume "c \<in> set (digits10 n)"
    then obtain d where "d < 10" "c = digit_char d" using digits10_digits by blast
    then show "c \<in> set ''0123456789''"
      by (auto dest!: digit_cases simp: digit_char_def)
  qed
  have nt: "Number_toString (Math_round_MB b) = digits10 (nat (Math_round_MB b))" for b
    using Math_round_MB_nonneg [of b] by (simp add: Number_toString_def)
  have val: "int (mathInt 10 (digits10 (nat (Math_round_MB b)))) = (int b + 524288) div 1048576" for b
    using Math_round_MB_nonneg [of b] by (simp add: mathInt_digits10 Math_round_MB_div)
  have rd: "parseInt (digits10 (nat (Math_round_MB b)) @ '' MB'') =
       (if (int b + 524288) div 1048576 \<le> 2 ^ 53
        then Num ((int b + 524288) div 1048576)
        else Number_of_int ((int b + 524288) div 1048576))" for b
  proof -
    have p: "parseInt (digits10 (nat (Math_round_MB b)) @ '' MB'') = Number_of_int (Math_round_MB b)"
      using parseInt_MB [of b] by (simp only: nt)
    show ?thesis
    proof (cases "(int b + 524288) div 1048576 \<le> 2 ^ 53")
      case True
      moreover have "0 \<le> (int b + 524288) div 1048576" by simp
      ultimately have "\<bar>(int b + 524288) div 1048576\<bar> \<le> 2 ^ 53" by simp
      then have "Number_of_int ((int b + 524288) div 1048576) = Num ((int b + 524288) div 1048576)"
        by (rule Number_of_int_exact)
      with True p show ?thesis by (simp only: Math_round_MB_div if_True)
    next
      case False
      with p show ?thesis by (simp only: Math_round_MB_div if_False)
    qed
  qed
  have "payload_field ''memory'' (health h ts up m1 m2 m3 redis_incr) =
       Some (JObj [(''used'', JStr (?u @ '' MB'')), (''total'', JStr (?t @ '' MB''))])"
    by (simp add: health_def nt)
  with val [of "heapUsed m1"] val [of "heapTotal m2"] rd [of "heapUsed m1"] rd [of "heapTotal m2"]
  show ?thesis
    using ds digits10_not_Nil by blast
qed

subsection \<open>C8: the metrics endpoint\<close>

text \<open>
  C8. GET /metrics answers with status 200 and the serialised registry when
  \<open>register.metrics()\<close> succeeds, and with status 500 and the message of the error as the
  whole body when it throws. The handler calls \<open>register.metrics()\<close> once.
\<close>

theorem metrics_response:
  "metrics (Inr text) = \<lparr>statusCode = 200, payload = Text text\<rparr> \<and>
   metrics (Inl message) = \<lparr>statusCode = 500, payload = Text message\<rparr>"
  by (simp add: metrics_def)

subsection \<open>C9: a duration of zero\<close>

text \<open>
  C9. \<open>duration=0\<close> gives the same result as no parameter: the duration is 5, the
  loop runs one batch for each clock reading below \<open>startTime + 5000\<close>, and on a clock
  that never runs backwards and reaches that deadline the reported elapsed time is at
  least 5 seconds. A \<open>duration\<close> that parses to a negative integer is the duration of
  the test as it is.
\<close>

theorem load_duration_zero:
  "load h (Some ''0'') clock m = load h None clock m \<and>
   load_duration (Some ''0'') = Num 5 \<and>
   (load h (Some ''0'') (startTime # ticks) m = Some (r, m') \<longrightarrow>
      payload_field ''requestedDuration'' r = Some (JNum 5) \<and>
      payload_field ''iterations'' r =
        Some (JNum (of_nat (length (takeWhile (\<lambda>t. t < startTime + 5000) ticks))))) \<and>
   (sorted (startTime # ticks) \<and> t \<in> set (butlast ticks) \<and> startTime + 5000 \<le> t \<longrightarrow>
      (\<exists>r m' a. load h (Some ''0'') (startTime # ticks) m = Some (r, m') \<and>
          payload_field ''actualDuration'' r = Some (JNum a) \<and> 5 \<le> a)) \<and>
   (parseInt s = Num n \<and> n < 0 \<longrightarrow> load_duration (Some s) = Num n)"
proof -
  have z: "load_duration (Some ''0'') = Num 5"
    by (simp add: load_duration_cases parseInt_0)
  have n: "load_duration None = Num 5"
    by (simp add: load_duration_cases parseInt_undefined)
  have eq: "load h (Some ''0'') clock m = load h None clock m"
    by (rule load_cong) (simp add: z n)
  have neg: "load_duration (Some s) = Num n" if "parseInt s = Num n" "n < 0"
    using that by (simp add: load_duration_cases)
  have run: "payload_field ''requestedDuration'' r = Some (JNum 5) \<and>
      payload_field ''iterations'' r =
        Some (JNum (of_nat (length (takeWhile (\<lambda>t. t < startTime + 5000) ticks))))"
    if l: "load h (Some ''0'') (startTime # ticks) m = Some (r, m')"
    using load_returns_duration [OF l] load_iterations [OF l z] by (simp add: z)
  have full: "\<exists>r m' a. load h (Some ''0'') (startTime # ticks) m = Some (r, m') \<and>
          payload_field ''actualDuration'' r = Some (JNum a) \<and> 5 \<le> a"
    if c: "sorted (startTime # ticks) \<and> t \<in> set (butlast ticks) \<and> startTime + 5000 \<le> t"
  proof -
    from c have c1: "sorted (startTime # ticks)" and c2: "t \<in> set (butlast ticks)"
      and c3: "startTime + 5 * 1000 \<le> t" by simp_all
    have "(1::int) \<le> 5" "(5::int) \<le> 30" by simp_all
    from load_full_duration [OF this z c1 c2 c3, of h m] show ?thesis by auto
  qed
  show ?thesis
  proof (intro conjI impI)
    show "load h (Some ''0'') clock m = load h None clock m" by (rule eq)
    show "load_duration (Some ''0'') = Num 5" by (rule z)
    show "load_duration (Some s) = Num n" if "parseInt s = Num n \<and> n < 0"
      using that neg by simp
    show "\<exists>r m' a. load h (Some ''0'') (startTime # ticks) m = Some (r, m') \<and>
          payload_field ''actualDuration'' r = Some (JNum a) \<and> 5 \<le> a"
      if "sorted (startTime # ticks) \<and> t \<in> set (butlast ticks) \<and> startTime + 5000 \<le> t"
      using that by (rule full)
  qed (simp_all only: run)
qed

theorem load_duration_zero_witness:
  "(\<exists>r m' a. load ''pod-1'' (Some ''0'') [0, 2500, 5000, 5001] new_registry = Some (r, m') \<and>
       payload_field ''requestedDuration'' r = Some (JNum 5) \<and>
       payload_field ''iterations'' r = Some (JNum 1) \<and>
       payload_field ''actualDuration'' r = Some (JNum a) \<and> 5 \<le> a) \<and>
   parseInt ''-5'' = Num (- 5) \<and> (- 5 :: int) < 0 \<and> load_duration (Some ''-5'') = Num (- 5)"
proof -
  have c: "sorted [0, 2500, 5000, 5001 :: int] \<and> (5000 :: int) \<in> set (butlast [2500, 5000, 5001]) \<and>
      (0 :: int) + 5000 \<le> 5000"
    by simp
  have p: "parseInt ''-5'' = Num (- 5) \<and> (- 5 :: int) < 0"
    by (simp add: parseInt_eval)
  have z: "load ''pod-1'' (Some ''0'') [0, 2500, 5000, 5001] new_registry = Some (r, m') \<longrightarrow>
      payload_field ''requestedDuration'' r = Some (JNum 5) \<and>
      payload_field ''iterations'' r = Some (JNum 1)" for r m'
    using load_duration_zero [where h = "''pod-1''" and m = new_registry and startTime = 0
      and ticks = "[2500, 5000, 5001]" and r = r and m' = m']
    by simp
  from load_duration_zero [where h = "''pod-1''" and m = new_registry and startTime = 0
      and ticks = "[2500, 5000, 5001]" and t = 5000 and s = "''-5''" and n = "- 5"] c p
  have "(\<exists>r m' a. load ''pod-1'' (Some ''0'') [0, 2500, 5000, 5001] new_registry = Some (r, m') \<and>
          payload_field ''actualDuration'' r = Some (JNum a) \<and> 5 \<le> a)"
    and "load_duration (Some ''-5'') = Num (- 5)"
    by blast+
  with z p show ?thesis by blast
qed

subsection \<open>C10: the scope of the rate limiter\<close>

text \<open>
  C10. The limiter passes every request whose path is \<open>/health\<close>, \<open>/ready\<close> or
  \<open>/metrics\<close> on, whatever its store holds, and does not count it. Of the requests of
  one client to other paths that arrive within 15 minutes after the first one opened a
  window, the first 1000 are passed on and all later ones are answered with 429; with
  the first request that arrives 15 minutes or more after the window was opened, a new
  window of 15 minutes opens, in which again the first 1000 are passed on and the later
  ones answered with 429.
\<close>

theorem rate_limit_scope:
  assumes probe: "path probe \<in> {''/health'', ''/ready'', ''/metrics''}"
    and first: "first = (req0, t0) # rest0"
    and client0: "\<forall>(req, now)\<in>set first.
        ip req = a \<and> path req \<notin> {''/health'', ''/ready'', ''/metrics''} \<and>
        t0 \<le> now \<and> now < t0 + 15 * 60 * 1000"
    and later: "later = (req1, t1) # rest1" "t0 + 15 * 60 * 1000 \<le> t1"
    and client1: "\<forall>(req, now)\<in>set later.
        ip req = a \<and> path req \<notin> {''/health'', ''/ready'', ''/metrics''} \<and>
        t1 \<le> now \<and> now < t1 + 15 * 60 * 1000"
    and fresh: "store a = None \<or> (\<exists>hits resetTime. store a = Some (hits, resetTime) \<and> resetTime \<le> t0)"
  shows "limiter any_store probe now = (Next, any_store) \<and>
         limiter_run store (first @ later) =
           map (\<lambda>k. if k < 1000 then Next else TooManyRequests) [0..<length first] @
           map (\<lambda>k. if k < 1000 then Next else TooManyRequests) [0..<length later]"
proof
  from probe have "skip probe" by (auto simp: skip_def)
  then show "limiter any_store probe now = (Next, any_store)" by (rule limiter_skip)
next
  from limiter_window [where store = store and a = a, OF first client0 fresh]
  have w0: "limiter_run store first =
           map (\<lambda>k. if k < 1000 then Next else TooManyRequests) [0..<length first]"
    and s0: "limiter_after store first a = Some (length first, t0 + 15 * 60 * 1000)"
    by simp_all
  from s0 later(2)
  have "limiter_after store first a = None \<or>
      (\<exists>hits resetTime. limiter_after store first a = Some (hits, resetTime) \<and> resetTime \<le> t1)"
    by simp
  from limiter_window [where store = "limiter_after store first" and a = a,
      OF later(1) client1 this]
  have "limiter_run (limiter_after store first) later =
           map (\<lambda>k. if k < 1000 then Next else TooManyRequests) [0..<length later]"
    by simp
  with w0 show "limiter_run store (first @ later) =
           map (\<lambda>k. if k < 1000 then Next else TooManyRequests) [0..<length first] @
           map (\<lambda>k. if k < 1000 then Next else TooManyRequests) [0..<length later]"
    by (simp only: limiter_run_append)
qed

theorem rate_limit_scope_witness:
  "limiter (new_store(''10.0.0.1'' \<mapsto> (5000, 900000)))
      \<lparr>http_method = ''GET'', path = ''/health'', ip = ''10.0.0.1''\<rparr> 1000 =
     (Next, new_store(''10.0.0.1'' \<mapsto> (5000, 900000))) \<and>
   limiter_run new_store
      (((\<lparr>http_method = ''GET'', path = ''/load'', ip = ''10.0.0.1''\<rparr>, 1000) #
        replicate 1000 (\<lparr>http_method = ''GET'', path = ''/load'', ip = ''10.0.0.1''\<rparr>, 2000)) @
       [(\<lparr>http_method = ''GET'', path = ''/load'', ip = ''10.0.0.1''\<rparr>, 901000)]) =
     (replicate 1000 Next @ [TooManyRequests]) @ [Next]"
proof -
  let ?probe = "\<lparr>http_method = ''GET'', path = ''/health'', ip = ''10.0.0.1''\<rparr>"
  let ?req = "\<lparr>http_method = ''GET'', path = ''/load'', ip = ''10.0.0.1''\<rparr>"
  let ?first = "(?req, 1000 :: int) # replicate 1000 (?req, 2000)"
  let ?later = "[(?req, 901000 :: int)]"
  have h1: "path ?probe \<in> {''/health'', ''/ready'', ''/metrics''}" by simp
  have h2: "?first = (?req, 1000) # replicate 1000 (?req, 2000)" by (rule refl)
  have h3: "\<forall>(req, now)\<in>set ?first.
        ip req = ''10.0.0.1'' \<and> path req \<notin> {''/health'', ''/ready'', ''/metrics''} \<and>
        1000 \<le> now \<and> now < 1000 + 15 * 60 * 1000" by simp
  have h4: "?later = (?req, 901000) # []" by (rule refl)
  have h5: "(1000 :: int) + 15 * 60 * 1000 \<le> 901000" by simp
  have h6: "\<forall>(req, now)\<in>set ?later.
        ip req = ''10.0.0.1'' \<and> path req \<notin> {''/health'', ''/ready'', ''/metrics''} \<and>
        901000 \<le> now \<and> now < 901000 + 15 * 60 * 1000" by simp
  have h7: "new_store ''10.0.0.1'' = None \<or>
      (\<exists>hits resetTime. new_store ''10.0.0.1'' = Some (hits, resetTime) \<and> resetTime \<le> 1000)"
    by (simp add: new_store_def)
  have len: "length ?first = 1001" by simp
  have m: "map (\<lambda>k. if k < 1000 then Next else TooManyRequests) [0..<1001] =
      replicate 1000 Next @ [TooManyRequests]"
  proof -
    have "[0..<1001] = [0..<1000] @ [1000]" by (simp del: upt_Suc add: upt_Suc_append [symmetric])
    moreover have "map (\<lambda>k. if k < 1000 then Next else TooManyRequests) [0..<1000] =
        replicate 1000 Next"
      by (rule nth_equalityI) (simp_all del: upt_Suc)
    ultimately show ?thesis by (simp del: upt_Suc replicate.simps)
  qed
  have m1: "map (\<lambda>k. if k < 1000 then Next else TooManyRequests) [0..<length ?later] = [Next]"
    by simp
  from rate_limit_scope [where store = new_store and a = "''10.0.0.1''"
      and any_store = "new_store(''10.0.0.1'' \<mapsto> (5000, 900000))" and now = 1000,
      OF h1 h2 h3 h4 h5 h6 h7]
  show ?thesis unfolding len m m1 .
qed


end
